theory Spec2Isabelle
  imports Complex_Main
begin

section \<open>Laminate layup optimizer (layup\_optimizer.py)\<close>

text \<open>
  The program computes with Python and numpy floating-point numbers. They are
  idealised here as real numbers: \<open>89e9\<close> is the real \<open>89 * 10 ^ 9\<close>, \<open>np.cos\<close> is
  \<open>cos\<close>, a comparison of two floats is the order of the reals. Rounding, overflow
  and the IEEE special values are outside the model, except where a branch of the
  model says otherwise.
\<close>

subsection \<open>Material and ply definitions (lines 9-36)\<close>

definition E1 :: real where "E1 = 89 * 10 ^ 9"
definition E2 :: real where "E2 = 8 * 10 ^ 9"
definition G12 :: real where "G12 = 45 * 10 ^ 8"
definition nu12 :: real where "nu12 = 3 / 10"
definition nu21 :: real where "nu21 = nu12 * E2 / E1"

definition denom :: real where "denom = 1 - nu12 * nu21"
definition Q11 :: real where "Q11 = E1 / denom"
definition Q22 :: real where "Q22 = E2 / denom"
definition Q12 :: real where "Q12 = nu12 * E2 / denom"
definition Q66 :: real where "Q66 = G12"

text \<open>Ply thickness \<open>t\<close> of the source; the name \<open>t\<close> is kept.\<close>
definition t :: real where "t = 1 / 1000"

definition allowed_angles :: "int list" where "allowed_angles = [0, 45, - 45, 90]"

definition minPercent :: real where "minPercent = 1 / 10"

definition min_full_plies :: int where "min_full_plies = 4"
definition max_full_plies :: int where "max_full_plies = 40"
definition min_half :: int where "min_half = min_full_plies div 2"
definition max_half :: int where "max_half = max_full_plies div 2"

subsection \<open>Matrices as lists of rows\<close>

type_synonym matrix = "real list list"

text \<open>\<open>np.zeros((r, c))\<close>.\<close>
definition zeros :: "nat \<Rightarrow> nat \<Rightarrow> matrix" where
  "zeros r c = replicate r (replicate c 0)"

text \<open>Elementwise \<open>A + B\<close>, \<open>A * x\<close> and \<open>A / x\<close> of numpy, for a scalar \<open>x\<close>.\<close>
definition mat_add :: "matrix \<Rightarrow> matrix \<Rightarrow> matrix" where
  "mat_add A B = map2 (map2 (+)) A B"

definition mat_scale :: "matrix \<Rightarrow> real \<Rightarrow> matrix" where
  "mat_scale A x = map (map (\<lambda>a. a * x)) A"

definition mat_div :: "matrix \<Rightarrow> real \<Rightarrow> matrix" where
  "mat_div A x = map (map (\<lambda>a. a / x)) A"

text \<open>The 3x3 matrix whose entry in row \<open>r\<close>, column \<open>c\<close> is \<open>f r c\<close>.\<close>
definition mat3 :: "(nat \<Rightarrow> nat \<Rightarrow> real) \<Rightarrow> matrix" where
  "mat3 f = [[f 0 0, f 0 1, f 0 2], [f 1 0, f 1 1, f 1 2], [f 2 0, f 2 1, f 2 2]]"

subsection \<open>Classical laminate theory (lines 42-105)\<close>

text \<open>\<open>np.radians\<close>.\<close>
definition radians :: "int \<Rightarrow> real" where
  "radians angle_deg = of_int angle_deg * pi / 180"

definition compute_Qbar :: "int \<Rightarrow> matrix" where
  "compute_Qbar angle_deg =
     (let theta = radians angle_deg;
          m = cos theta;
          n = sin theta;
          m2 = m ^ 2;
          n2 = n ^ 2;
          m4 = m ^ 4;
          n4 = n ^ 4;
          m3n = m ^ 3 * n;
          mn3 = m * n ^ 3;
          m2n2 = m2 * n2;
          Qbar11 = Q11 * m4 + 2 * (Q12 + 2 * Q66) * m2n2 + Q22 * n4;
          Qbar12 = (Q11 + Q22 - 4 * Q66) * m2n2 + Q12 * (m4 + n4);
          Qbar22 = Q11 * n4 + 2 * (Q12 + 2 * Q66) * m2n2 + Q22 * m4;
          Qbar16 = (Q11 - Q12 - 2 * Q66) * m3n - (Q22 - Q12 - 2 * Q66) * mn3;
          Qbar26 = (Q11 - Q12 - 2 * Q66) * mn3 - (Q22 - Q12 - 2 * Q66) * m3n;
          Qbar66 = (Q11 + Q22 - 2 * Q12 - 2 * Q66) * m2n2 + Q66 * (m4 + n4)
      in [[Qbar11, Qbar12, Qbar16],
          [Qbar12, Qbar22, Qbar26],
          [Qbar16, Qbar26, Qbar66]])"

text \<open>
  \<open>np.linspace(start, stop, num)\<close> with the default \<open>endpoint=True\<close>: the points
  \<open>i * step + start\<close> with \<open>step = (stop - start) / (num - 1)\<close>, the last one
  overwritten with \<open>stop\<close> when there is more than one; a single point is \<open>start\<close>.
\<close>
definition linspace :: "real \<Rightarrow> real \<Rightarrow> nat \<Rightarrow> real list" where
  "linspace start stop num =
     (let dv = num - 1;
          delta = stop - start;
          y = (if 0 < dv then map (\<lambda>i. real i * (delta / real dv) + start) [0..<num]
               else map (\<lambda>i. real i * delta + start) [0..<num])
      in if 1 < num then y[num - 1 := stop] else y)"

text \<open>
  The loop of \<open>compute_D_matrix\<close> is the fold over \<open>range(N)\<close>; every index it
  reads, \<open>full_seq[i]\<close>, \<open>z[i]\<close> and \<open>z[i+1]\<close>, is in range.
\<close>
definition compute_D_matrix :: "int list \<Rightarrow> matrix" where
  "compute_D_matrix full_seq =
     (let N = length full_seq;
          total_thickness = real N * t;
          z = linspace (- total_thickness / 2) (total_thickness / 2) (N + 1)
      in fold (\<lambda>i D. mat_add D
                 (mat_div (mat_scale (compute_Qbar (full_seq ! i)) ((z ! (i + 1)) ^ 3 - (z ! i) ^ 3)) 3))
           [0..<N] (zeros 3 3))"

text \<open>The ply-boundary coordinates as the specification words them:
  \<open>N + 1\<close> evenly spaced points from \<open>- N t / 2\<close> to \<open>N t / 2\<close>.\<close>
definition z_spec :: "nat \<Rightarrow> nat \<Rightarrow> real" where
  "z_spec N i = - (real N * t) / 2 + real i * t"

definition laminate_deflection_metric :: "int list \<Rightarrow> real" where
  "laminate_deflection_metric full_seq =
     (let D = compute_D_matrix full_seq;
          D11 = D ! 0 ! 0
      in if D11 \<le> 0 then 10 ^ 12 else 1 / D11)"

definition laminate_weight :: "int list \<Rightarrow> real" where
  "laminate_weight full_seq = (let ply_weight = 5 / 1000 in real (length full_seq) * ply_weight)"

subsection \<open>Constraint penalty (lines 111-150)\<close>

text \<open>The exceptions the program can raise.\<close>
datatype error = ValueError | IndexError

text \<open>
  \<open>np.isclose(a, b)\<close> with the default tolerances \<open>rtol = 1e-05\<close> and
  \<open>atol = 1e-08\<close>, on finite numbers.
\<close>
definition isclose :: "real \<Rightarrow> real \<Rightarrow> bool" where
  "isclose a b = (\<bar>a - b\<bar> \<le> 1 / 10 ^ 8 + (1 / 10 ^ 5) * \<bar>b\<bar>)"

text \<open>
  \<open>np.allclose(a, b)\<close> on one-dimensional arrays: elementwise when the lengths
  agree; an array of length one is broadcast against the other; any other pair of
  lengths raises \<open>ValueError\<close> (operands could not be broadcast together).
\<close>
definition allclose :: "real list \<Rightarrow> real list \<Rightarrow> error + bool" where
  "allclose a b =
     (if length a = length b then Inr (list_all2 isclose a b)
      else if length a = 1 then Inr (list_all (\<lambda>y. isclose (a ! 0) y) b)
      else if length b = 1 then Inr (list_all (\<lambda>x. isclose x (b ! 0)) a)
      else Inl ValueError)"

text \<open>The symmetry test of \<open>penalty\<close> (line 122):
  \<open>np.allclose(full_seq[:half], full_seq[half:][::-1])\<close>.\<close>
definition symmetric_check :: "int list \<Rightarrow> error + bool" where
  "symmetric_check full_seq =
     (let N = length full_seq;
          half = N div 2
      in allclose (map of_int (take half full_seq)) (map of_int (rev (drop half full_seq))))"

text \<open>
  \<open>np.sum(np.array(full_seq) == a)\<close> is \<open>count_list full_seq a\<close>; \<open>int(x)\<close> of a
  non-negative \<open>x\<close> is its floor.
\<close>
definition penalty :: "int list \<Rightarrow> error + real" where
  "penalty full_seq =
     (case symmetric_check full_seq of
        Inl e \<Rightarrow> Inl e
      | Inr symmetric \<Rightarrow>
          (let N = length full_seq;
               pen0 = (if \<not> symmetric then 10 ^ 6 else 0);
               count_p45 = int (count_list full_seq 45);
               count_m45 = int (count_list full_seq (- 45));
               pen1 = pen0 + 10 ^ 6 * real_of_int \<bar>count_p45 - count_m45\<bar>;
               required = \<lfloor>real N * minPercent\<rfloor>;
               count_0 = int (count_list full_seq 0);
               count_90 = int (count_list full_seq 90);
               count_45_total = count_p45 + count_m45;
               pen2 = (if count_0 < required
                       then pen1 + 10 ^ 6 * real_of_int (required - count_0) else pen1);
               pen3 = (if count_90 < required
                       then pen2 + 10 ^ 6 * real_of_int (required - count_90) else pen2);
               pen4 = (if count_45_total < required
                       then pen3 + 10 ^ 6 * real_of_int (required - count_45_total) else pen3)
           in Inr pen4))"

definition laminate_objective :: "int list \<Rightarrow> error + real" where
  "laminate_objective full_seq =
     (case penalty full_seq of
        Inl e \<Rightarrow> Inl e
      | Inr pen \<Rightarrow> Inr (laminate_deflection_metric full_seq + laminate_weight full_seq + pen))"

definition objective :: "int list \<Rightarrow> error + real" where
  "objective half_seq = (let full_seq = half_seq @ rev half_seq in laminate_objective full_seq)"

text \<open>The constraint violations that \<open>penalty\<close> charges, as the specification
  names them: the imbalance and the shortfall of an orientation class.\<close>
definition imbalance :: "int list \<Rightarrow> int" where
  "imbalance full_seq = \<bar>int (count_list full_seq 45) - int (count_list full_seq (- 45))\<bar>"

definition required_plies :: "int list \<Rightarrow> int" where
  "required_plies full_seq = \<lfloor>real (length full_seq) * minPercent\<rfloor>"

definition shortfall :: "int list \<Rightarrow> int \<Rightarrow> int" where
  "shortfall full_seq cnt = max 0 (required_plies full_seq - cnt)"

definition count_45_family :: "int list \<Rightarrow> int" where
  "count_45_family full_seq = int (count_list full_seq 45) + int (count_list full_seq (- 45))"

definition balanced :: "int list \<Rightarrow> bool" where
  "balanced full_seq = (count_list full_seq 45 = count_list full_seq (- 45))"

definition coverage_met :: "int list \<Rightarrow> bool" where
  "coverage_met full_seq =
     (required_plies full_seq \<le> int (count_list full_seq 0) \<and>
      required_plies full_seq \<le> int (count_list full_seq 90) \<and>
      required_plies full_seq \<le> count_45_family full_seq)"

subsection \<open>Simulated annealing (lines 156-219)\<close>

text \<open>
  The random generator is an input of the model. One number stands for each draw:
  \<open>random.randint(a, b)\<close> with draw \<open>k\<close> is \<open>a + k mod (b - a + 1)\<close>, so every
  value of the range is reached and no other, and an empty range raises
  \<open>ValueError\<close>; \<open>random.choice(xs)\<close> with draw \<open>k\<close> is \<open>xs[k mod len(xs)]\<close>, and
  an empty list raises \<open>IndexError\<close>; \<open>random.random()\<close> is the real number drawn.
\<close>
definition randint :: "nat \<Rightarrow> int \<Rightarrow> int \<Rightarrow> error + int" where
  "randint k a b = (if b < a then Inl ValueError else Inr (a + int k mod (b - a + 1)))"

definition choice :: "nat \<Rightarrow> 'a list \<Rightarrow> error + 'a" where
  "choice k xs = (if xs = [] then Inl IndexError else Inr (xs ! (k mod length xs)))"

text \<open>The draws of one iteration: the move, the position, the angle, and the
  uniform number of the acceptance test.\<close>
record draws =
  d_move :: nat
  d_idx :: nat
  d_angle :: nat
  d_u :: real

text \<open>The draws of a run: the initial length, the initial angles by position,
  and the draws of each iteration.\<close>
record rng =
  r_length :: nat
  r_init :: "nat \<Rightarrow> nat"
  r_iter :: "nat \<Rightarrow> draws"

datatype move = Change | Insert | Delete

text \<open>The bounds on the length of the half-sequence.\<close>
definition within_bounds :: "int list \<Rightarrow> bool" where
  "within_bounds half_seq = (min_half \<le> int (length half_seq) \<and> int (length half_seq) \<le> max_half)"

text \<open>Lines 175-179: the move kinds allowed at the current half length.\<close>
definition legal_moves :: "int list \<Rightarrow> move list" where
  "legal_moves current_half =
     [Change]
     @ (if int (length current_half) < max_half then [Insert] else [])
     @ (if int (length current_half) > min_half then [Delete] else [])"

text \<open>Lines 184-198: one move applied to a copy of the current half-sequence.\<close>
definition apply_move :: "move \<Rightarrow> draws \<Rightarrow> int list \<Rightarrow> error + int list" where
  "apply_move mv d candidate_half =
     (case mv of
        Change \<Rightarrow>
          (case randint (d_idx d) 0 (int (length candidate_half) - 1) of
             Inl e \<Rightarrow> Inl e
           | Inr idx \<Rightarrow>
               (case choice (d_angle d)
                       (filter (\<lambda>a. a \<noteq> candidate_half ! nat idx) allowed_angles) of
                  Inl e \<Rightarrow> Inl e
                | Inr a \<Rightarrow> Inr (candidate_half[nat idx := a])))
      | Insert \<Rightarrow>
          (case randint (d_idx d) 0 (int (length candidate_half)) of
             Inl e \<Rightarrow> Inl e
           | Inr idx \<Rightarrow>
               (case choice (d_angle d) allowed_angles of
                  Inl e \<Rightarrow> Inl e
                | Inr a \<Rightarrow> Inr (take (nat idx) candidate_half @ [a] @ drop (nat idx) candidate_half)))
      | Delete \<Rightarrow>
          (case randint (d_idx d) 0 (int (length candidate_half) - 1) of
             Inl e \<Rightarrow> Inl e
           | Inr idx \<Rightarrow>
               Inr (take (nat idx) candidate_half @ drop (Suc (nat idx)) candidate_half)))"

text \<open>Lines 175-198: the candidate of one iteration.\<close>
definition propose :: "draws \<Rightarrow> int list \<Rightarrow> error + int list" where
  "propose d current_half =
     (case choice (d_move d) (legal_moves current_half) of
        Inl e \<Rightarrow> Inl e
      | Inr mv \<Rightarrow> apply_move mv d current_half)"

text \<open>The variables of the search: lines 166-171.\<close>
record state =
  current_half :: "int list"
  current_obj :: real
  best_half :: "int list"
  best_obj :: real
  T :: real

text \<open>
  Line 204, \<open>random.random() < np.exp(-delta / T)\<close>, evaluated only when
  \<open>delta < 0\<close> is false. With \<open>T = 0.0\<close> numpy's division gives \<open>-inf\<close> or
  \<open>nan\<close> and the comparison is false; that case is its own branch, since the
  division of the reals is not numpy's there.
\<close>
definition accept_draw :: "real \<Rightarrow> real \<Rightarrow> real \<Rightarrow> bool" where
  "accept_draw u delta temp = (if temp = 0 then False else u < exp (- delta / temp))"

text \<open>Lines 174-212: one iteration of the loop. The progress line printed every
  1000 iterations changes no variable and is left out.\<close>
definition step :: "draws \<Rightarrow> real \<Rightarrow> state \<Rightarrow> error + state" where
  "step d cooling_rate s =
     (case propose d (current_half s) of
        Inl e \<Rightarrow> Inl e
      | Inr candidate_half \<Rightarrow>
          (case objective candidate_half of
             Inl e \<Rightarrow> Inl e
           | Inr candidate_obj \<Rightarrow>
               (let delta = candidate_obj - current_obj s;
                    s1 = (if delta < 0 \<or> accept_draw (d_u d) delta (T s)
                          then (let s2 = s\<lparr>current_half := candidate_half,
                                            current_obj := candidate_obj\<rparr>
                                in if current_obj s2 < best_obj s2
                                   then s2\<lparr>best_half := current_half s2,
                                           best_obj := current_obj s2\<rparr>
                                   else s2)
                          else s)
                in Inr (s1\<lparr>T := T s1 * cooling_rate\<rparr>))))"

text \<open>A list of results is a result: the first error, or all the values.\<close>
fun sequence :: "(error + 'a) list \<Rightarrow> error + 'a list" where
  "sequence [] = Inr []"
| "sequence (Inl e # xs) = Inl e"
| "sequence (Inr x # xs) = (case sequence xs of Inl e \<Rightarrow> Inl e | Inr ys \<Rightarrow> Inr (x # ys))"

text \<open>Lines 166-171: the initial state.\<close>
definition init_state :: "rng \<Rightarrow> real \<Rightarrow> error + state" where
  "init_state r initial_temp =
     (case randint (r_length r) min_half max_half of
        Inl e \<Rightarrow> Inl e
      | Inr current_length \<Rightarrow>
          (case sequence (map (\<lambda>i. choice (r_init r i) allowed_angles)
                            [0..<nat current_length]) of
             Inl e \<Rightarrow> Inl e
           | Inr half0 \<Rightarrow>
               (case objective half0 of
                  Inl e \<Rightarrow> Inl e
                | Inr obj0 \<Rightarrow>
                    Inr \<lparr>current_half = half0, current_obj = obj0,
                         best_half = half0, best_obj = obj0,
                         T = initial_temp\<rparr>)))"

text \<open>The state after the first \<open>n\<close> iterations of the loop of line 173.\<close>
primrec iterate :: "rng \<Rightarrow> real \<Rightarrow> nat \<Rightarrow> state \<Rightarrow> error + state" where
  "iterate r cooling_rate 0 s = Inr s"
| "iterate r cooling_rate (Suc n) s =
     (case iterate r cooling_rate n s of
        Inl e \<Rightarrow> Inl e
      | Inr s' \<Rightarrow> step (r_iter r n) cooling_rate s')"

text \<open>The search state after \<open>n\<close> iterations of a run.\<close>
definition search_state :: "rng \<Rightarrow> real \<Rightarrow> real \<Rightarrow> nat \<Rightarrow> error + state" where
  "search_state r initial_temp cooling_rate n =
     (case init_state r initial_temp of
        Inl e \<Rightarrow> Inl e
      | Inr s0 \<Rightarrow> iterate r cooling_rate n s0)"

definition simulated_annealing :: "rng \<Rightarrow> nat \<Rightarrow> real \<Rightarrow> real \<Rightarrow> error + (int list \<times> real)" where
  "simulated_annealing r n_iterations initial_temp cooling_rate =
     (case search_state r initial_temp cooling_rate n_iterations of
        Inl e \<Rightarrow> Inl e
      | Inr s \<Rightarrow>
          (let best_full_seq = best_half s @ rev (best_half s)
           in Inr (best_full_seq, best_obj s)))"

text \<open>
  The current objectives of the states a run goes through in its first \<open>n\<close>
  iterations: the objective of the initial state and, by the acceptance rule, the
  objectives of the candidates accepted since.
\<close>
definition objectives_reached :: "rng \<Rightarrow> real \<Rightarrow> real \<Rightarrow> nat \<Rightarrow> real set" where
  "objectives_reached r initial_temp cooling_rate n =
     {v. \<exists>k s. k \<le> n \<and> search_state r initial_temp cooling_rate k = Inr s \<and> v = current_obj s}"

subsection \<open>Two example runs\<close>

text \<open>
  Draws for two one-iteration runs on all-zero laminates. Run \<open>a\<close> starts from two
  plies and inserts a third, which raises the objective and is accepted because the
  uniform draw is \<open>0\<close>; with the uniform draw \<open>999 / 1000\<close> (\<open>draws_c\<close>) the same
  candidate is rejected. Run \<open>b\<close> starts from three plies and deletes one, which
  lowers the objective. The states are the ones the runs go through.
\<close>
definition draws_a :: draws where
  "draws_a = \<lparr>d_move = 1, d_idx = 0, d_angle = 0, d_u = 0\<rparr>"

definition draws_b :: draws where
  "draws_b = \<lparr>d_move = 2, d_idx = 0, d_angle = 0, d_u = 0\<rparr>"

definition draws_c :: draws where
  "draws_c = \<lparr>d_move = 1, d_idx = 0, d_angle = 0, d_u = 999 / 1000\<rparr>"

definition rng_a :: rng where
  "rng_a = \<lparr>r_length = 0, r_init = (\<lambda>i. 0), r_iter = (\<lambda>k. draws_a)\<rparr>"

definition rng_b :: rng where
  "rng_b = \<lparr>r_length = 1, r_init = (\<lambda>i. 0), r_iter = (\<lambda>k. draws_b)\<rparr>"

definition state_a0 :: "real \<Rightarrow> state" where
  "state_a0 T0 = \<lparr>current_half = [0, 0], current_obj = 69989 / 3168400,
      best_half = [0, 0], best_obj = 69989 / 3168400, T = T0\<rparr>"

definition state_a1 :: "real \<Rightarrow> state" where
  "state_a1 T1 = \<lparr>current_half = [0, 0, 0], current_obj = 218281 / 7128900,
      best_half = [0, 0], best_obj = 69989 / 3168400, T = T1\<rparr>"

definition state_b0 :: "real \<Rightarrow> state" where
  "state_b0 T0 = \<lparr>current_half = [0, 0, 0], current_obj = 218281 / 7128900,
      best_half = [0, 0, 0], best_obj = 218281 / 7128900, T = T0\<rparr>"

definition state_b1 :: "real \<Rightarrow> state" where
  "state_b1 T1 = \<lparr>current_half = [0, 0], current_obj = 69989 / 3168400,
      best_half = [0, 0], best_obj = 69989 / 3168400, T = T1\<rparr>"

section \<open>Properties\<close>

subsection \<open>Ply transform\<close>

lemma compute_Qbar_mat3:
  "compute_Qbar a = mat3 (\<lambda>r c. compute_Qbar a ! r ! c)"
  by (simp add: compute_Qbar_def mat3_def Let_def)

text \<open>
  C9: \<open>compute_Qbar\<close> at 0 and at 90 degrees has the shear-coupling terms
  Qbar16 (row 0, column 2) and Qbar26 (row 1, column 2) equal to zero.
\<close>
theorem compute_Qbar_shear_coupling_zero:
  "compute_Qbar 0 ! 0 ! 2 = 0 \<and> compute_Qbar 0 ! 1 ! 2 = 0 \<and>
   compute_Qbar 90 ! 0 ! 2 = 0 \<and> compute_Qbar 90 ! 1 ! 2 = 0"
  by (simp add: compute_Qbar_def radians_def Let_def)

subsection \<open>Laminate integrator\<close>

lemma length_linspace: "length (linspace a b num) = num"
  by (simp add: linspace_def Let_def)

lemma linspace_nth:
  assumes "i \<le> N" "0 < N"
  shows "linspace (- (real N * t) / 2) (real N * t / 2) (N + 1) ! i = z_spec N i"
proof (cases "i = N")
  case True
  then show ?thesis using assms by (simp add: linspace_def Let_def z_spec_def)
next
  case False
  then have "i < N" using assms by simp
  then show ?thesis using assms
    by (simp add: linspace_def Let_def z_spec_def nth_list_update field_simps del: upt_Suc)
qed

lemma mat_add_mat3:
  "mat_add (mat3 f) (mat_div (mat_scale (mat3 g) x) y) = mat3 (\<lambda>r c. f r c + g r c * x / y)"
  by (simp add: mat_add_def mat_div_def mat_scale_def mat3_def)

lemma zeros_mat3: "zeros 3 3 = mat3 (\<lambda>r c. 0)"
  by (simp add: zeros_def mat3_def numeral_3_eq_3)

lemma mat_add_Qbar:
  "mat_add (mat3 f) (mat_div (mat_scale (compute_Qbar a) x) y)
   = mat3 (\<lambda>r c. f r c + compute_Qbar a ! r ! c * x / y)"
proof -
  have "mat_add (mat3 f) (mat_div (mat_scale (mat3 (\<lambda>r c. compute_Qbar a ! r ! c)) x) y)
        = mat3 (\<lambda>r c. f r c + compute_Qbar a ! r ! c * x / y)"
    by (rule mat_add_mat3)
  then show ?thesis
    by (simp only: compute_Qbar_mat3 [symmetric])
qed

lemma fold_D:
  "fold (\<lambda>i D. mat_add D (mat_div (mat_scale (compute_Qbar (full_seq ! i)) (zf i)) 3))
           [0..<k] (zeros 3 3)
         = mat3 (\<lambda>r c. \<Sum>i<k. compute_Qbar (full_seq ! i) ! r ! c * zf i / 3)"
proof (induction k)
  case 0
  then show ?case by (simp add: zeros_mat3)
next
  case (Suc k)
  then show ?case by (simp add: mat_add_Qbar)
qed

lemma fold_cong_upt:
  assumes "\<And>i. i < k \<Longrightarrow> f i = g i"
  shows "fold f [0..<k] a = fold g [0..<k] a"
  using assms by (intro fold_cong) auto

text \<open>
  C1: \<open>compute_D_matrix\<close> returns the 3x3 matrix that is the sum over the plies \<open>i\<close>
  of \<open>Qbar(angle_i) * (z[i+1]^3 - z[i]^3) / 3\<close>, for the \<open>N + 1\<close> evenly spaced
  boundary coordinates \<open>z\<close> from \<open>- N t / 2\<close> to \<open>N t / 2\<close>. It holds for the empty
  sequence too, where the sum is the zero matrix.
\<close>
theorem compute_D_matrix_sum:
  "compute_D_matrix full_seq =
     mat3 (\<lambda>r c. \<Sum>i<length full_seq.
             compute_Qbar (full_seq ! i) ! r ! c
               * ((z_spec (length full_seq) (i + 1)) ^ 3 - (z_spec (length full_seq) i) ^ 3) / 3)"
proof (cases "full_seq = []")
  case True
  then show ?thesis by (simp add: compute_D_matrix_def zeros_mat3)
next
  case False
  define N where "N = length full_seq"
  have N: "0 < N" using False by (simp add: N_def)
  define z where "z = linspace (- (real N * t) / 2) (real N * t / 2) (N + 1)"
  have "compute_D_matrix full_seq =
        fold (\<lambda>i D. mat_add D
                 (mat_div (mat_scale (compute_Qbar (full_seq ! i)) ((z ! (i + 1)) ^ 3 - (z ! i) ^ 3)) 3))
           [0..<N] (zeros 3 3)"
    by (simp add: compute_D_matrix_def Let_def N_def z_def)
  also have "\<dots> = fold (\<lambda>i D. mat_add D
                 (mat_div (mat_scale (compute_Qbar (full_seq ! i))
                    ((z_spec N (i + 1)) ^ 3 - (z_spec N i) ^ 3)) 3))
           [0..<N] (zeros 3 3)"
  proof (rule fold_cong_upt)
    fix i assume "i < N"
    then have "z ! (i + 1) = z_spec N (i + 1)" and "z ! i = z_spec N i"
      unfolding z_def using N by (simp_all only: linspace_nth)
    then show "(\<lambda>D. mat_add D (mat_div (mat_scale (compute_Qbar (full_seq ! i))
                   ((z ! (i + 1)) ^ 3 - (z ! i) ^ 3)) 3))
             = (\<lambda>D. mat_add D (mat_div (mat_scale (compute_Qbar (full_seq ! i))
                   ((z_spec N (i + 1)) ^ 3 - (z_spec N i) ^ 3)) 3))"
      by simp
  qed
  also have "\<dots> = mat3 (\<lambda>r c. \<Sum>i<N. compute_Qbar (full_seq ! i) ! r ! c
               * ((z_spec N (i + 1)) ^ 3 - (z_spec N i) ^ 3) / 3)"
    by (rule fold_D)
  finally show ?thesis by (simp add: N_def)
qed

subsection \<open>Penalty and objective\<close>

lemma isclose_refl: "isclose x x"
  by (simp add: isclose_def)

lemma allclose_refl: "allclose xs xs = Inr True"
  by (simp add: allclose_def list_all2_same isclose_refl)

lemma mirror_half: "length (h @ rev h) div 2 = length h"
  by simp

lemma symmetric_check_mirror: "symmetric_check (h @ rev h) = Inr True"
  by (simp add: symmetric_check_def Let_def allclose_refl)

lemma penalty_violations:
  assumes "symmetric_check full_seq = Inr b"
  shows "penalty full_seq =
           Inr (10 ^ 6 * real_of_int ((if b then 0 else 1) + imbalance full_seq
                  + shortfall full_seq (int (count_list full_seq 0))
                  + shortfall full_seq (int (count_list full_seq 90))
                  + shortfall full_seq (count_45_family full_seq)))"
  using assms
  by (simp add: penalty_def Let_def imbalance_def shortfall_def required_plies_def
        count_45_family_def max_def algebra_simps)

lemma penalty_returns:
  "penalty full_seq = Inr p \<Longrightarrow> \<exists>b. symmetric_check full_seq = Inr b"
  by (cases "symmetric_check full_seq") (simp_all add: penalty_def)

lemma imbalance_nonneg: "0 \<le> imbalance s"
  by (simp add: imbalance_def)

lemma shortfall_nonneg: "0 \<le> shortfall s c"
  by (simp add: shortfall_def)

lemma imbalance_zero: "imbalance s = 0 \<longleftrightarrow> balanced s"
  by (auto simp: imbalance_def balanced_def)

lemma shortfall_zero: "shortfall s c = 0 \<longleftrightarrow> required_plies s \<le> c"
  by (auto simp: shortfall_def max_def)

text \<open>
  C3, as amended: whenever \<open>penalty\<close> returns, it is zero if and only if the symmetry
  check passes, the sequence is balanced and each of the three orientation classes
  has at least \<open>floor(N * minPercent)\<close> plies; it is \<open>10 ^ 6\<close> times the sum of the
  violation magnitudes (one for a failed symmetry check, the imbalance, the three
  shortfalls), so it is at least \<open>10 ^ 6\<close> when it is not zero and grows with each
  violation.
\<close>
theorem penalty_zero_iff:
  assumes "penalty full_seq = Inr p"
  shows "(p = 0 \<longleftrightarrow>
            symmetric_check full_seq = Inr True \<and> balanced full_seq \<and> coverage_met full_seq)
       \<and> p = 10 ^ 6 * real_of_int
               ((if symmetric_check full_seq = Inr True then 0 else 1)
                + imbalance full_seq
                + shortfall full_seq (int (count_list full_seq 0))
                + shortfall full_seq (int (count_list full_seq 90))
                + shortfall full_seq (count_45_family full_seq))
       \<and> (p = 0 \<or> 10 ^ 6 \<le> p)"
proof -
  from assms obtain b where b: "symmetric_check full_seq = Inr b"
    using penalty_returns by blast
  define v where "v = (if b then 0 else 1) + imbalance full_seq
                + shortfall full_seq (int (count_list full_seq 0))
                + shortfall full_seq (int (count_list full_seq 90))
                + shortfall full_seq (count_45_family full_seq)"
  have p: "p = 10 ^ 6 * real_of_int v"
    using penalty_violations [OF b] assms by (simp add: v_def)
  have v0: "0 \<le> v"
    using imbalance_nonneg [of full_seq] shortfall_nonneg [of full_seq]
    by (simp add: v_def)
  have zero: "v = 0 \<longleftrightarrow> b \<and> balanced full_seq \<and> coverage_met full_seq"
    using imbalance_nonneg [of full_seq]
      shortfall_nonneg [of full_seq "int (count_list full_seq 0)"]
      shortfall_nonneg [of full_seq "int (count_list full_seq 90)"]
      shortfall_nonneg [of full_seq "count_45_family full_seq"]
      imbalance_zero [of full_seq]
      shortfall_zero [of full_seq "int (count_list full_seq 0)"]
      shortfall_zero [of full_seq "int (count_list full_seq 90)"]
      shortfall_zero [of full_seq "count_45_family full_seq"]
    unfolding v_def coverage_met_def by (cases b) auto
  have "p = 0 \<longleftrightarrow> v = 0" using p by simp
  moreover have "p = 0 \<or> 10 ^ 6 \<le> p"
  proof (cases "v = 0")
    case True then show ?thesis using p by simp
  next
    case False
    then have "1 \<le> v" using v0 by simp
    then have "(1::real) \<le> real_of_int v" by simp
    then show ?thesis using p by simp
  qed
  ultimately show ?thesis using zero p b by (simp add: v_def)
qed

text \<open>The amended C3 at a symmetric, balanced eight-ply laminate with two plies of each angle.\<close>
theorem penalty_zero_iff_witness:
  "penalty [0, 90, 45, - 45, - 45, 45, 90, 0] = Inr 0
   \<and> symmetric_check [0, 90, 45, - 45, - 45, 45, 90, 0] = Inr True
   \<and> balanced [0, 90, 45, - 45, - 45, 45, 90, 0]
   \<and> coverage_met [0, 90, 45, - 45, - 45, 45, 90, 0]"
proof -
  have h: "penalty [0, 90, 45, - 45, - 45, 45, 90, 0] = Inr 0"
    by (simp add: penalty_def symmetric_check_def allclose_def isclose_def minPercent_def Let_def)
  show ?thesis using h penalty_zero_iff [OF h] by simp
qed

text \<open>
  C3 as stated fails: the two-ply sequence \<open>[0, 90]\<close> is balanced and meets all
  three minimums (none is required of two plies), and its penalty is \<open>10 ^ 6\<close>,
  charged by the symmetry check.
\<close>
theorem penalty_ignores_symmetry_counterexample:
  "balanced [0, 90] \<and> coverage_met [0, 90] \<and> penalty [0, 90] = Inr (10 ^ 6)"
  by (simp add: balanced_def coverage_met_def required_plies_def count_45_family_def
        penalty_def symmetric_check_def allclose_def isclose_def minPercent_def Let_def)

text \<open>
  C4: \<open>objective\<close> evaluates a half-sequence \<open>h\<close> on \<open>h\<close> followed by its reverse;
  the first half of that sequence is the reverse of its second half, the symmetry
  check of \<open>penalty\<close> passes, and the penalty holds no symmetry term.
\<close>
theorem objective_mirror_symmetric:
  "objective h = laminate_objective (h @ rev h)
   \<and> take (length h) (h @ rev h) = rev (drop (length h) (h @ rev h))
   \<and> symmetric_check (h @ rev h) = Inr True
   \<and> penalty (h @ rev h) =
       Inr (10 ^ 6 * real_of_int
              (imbalance (h @ rev h)
               + shortfall (h @ rev h) (int (count_list (h @ rev h) 0))
               + shortfall (h @ rev h) (int (count_list (h @ rev h) 90))
               + shortfall (h @ rev h) (count_45_family (h @ rev h))))"
  using penalty_violations [OF symmetric_check_mirror, of h]
  by (simp add: objective_def symmetric_check_mirror)

text \<open>
  C7: the deflection metric is \<open>1 / D11\<close> when \<open>D11 = D[0,0]\<close> is positive and the
  sentinel \<open>10 ^ 12\<close> otherwise. The function has no failing branch: it returns a
  number on every sequence.
\<close>
theorem deflection_metric_cases:
  "laminate_deflection_metric full_seq =
     (if 0 < compute_D_matrix full_seq ! 0 ! 0
      then 1 / (compute_D_matrix full_seq ! 0 ! 0) else 10 ^ 12)"
  by (simp add: laminate_deflection_metric_def Let_def)

subsection \<open>Random draws and moves\<close>

lemma randint_range:
  assumes "randint k a b = Inr x"
  shows "a \<le> x \<and> x \<le> b"
proof -
  from assms have ab: "a \<le> b" and x: "x = a + int k mod (b - a + 1)"
    by (auto simp: randint_def split: if_splits)
  have "0 < b - a + 1" using ab by simp
  then have "0 \<le> int k mod (b - a + 1)" and "int k mod (b - a + 1) < b - a + 1"
    by (rule pos_mod_sign, rule pos_mod_bound)
  then show ?thesis using x by linarith
qed

lemma randint_returns: "a \<le> b \<Longrightarrow> \<exists>x. randint k a b = Inr x"
  by (simp add: randint_def)

lemma randint_raises: "randint k a b = Inr x \<Longrightarrow> a \<le> b"
  by (simp add: randint_def split: if_splits)

lemma choice_mem: "choice k xs = Inr x \<Longrightarrow> x \<in> set xs"
  by (auto simp: choice_def split: if_splits)

lemma choice_returns: "xs \<noteq> [] \<Longrightarrow> \<exists>x. choice k xs = Inr x"
  by (simp add: choice_def)

lemma apply_move_Change:
  assumes "apply_move Change d h = Inr c"
  shows "length c = length h \<and> c \<noteq> h"
proof -
  from assms obtain idx a where idx: "randint (d_idx d) 0 (int (length h) - 1) = Inr idx"
    and a: "choice (d_angle d) (filter (\<lambda>a. a \<noteq> h ! nat idx) allowed_angles) = Inr a"
    and c: "c = h[nat idx := a]"
    by (auto simp: apply_move_def split: sum.splits)
  from randint_range [OF idx] have "nat idx < length h" by auto
  moreover from choice_mem [OF a] have "a \<noteq> h ! nat idx" by simp
  ultimately have "c ! nat idx \<noteq> h ! nat idx" using c by simp
  then show ?thesis using c by auto
qed

lemma apply_move_Insert:
  assumes "apply_move Insert d h = Inr c"
  shows "length c = length h + 1"
proof -
  from assms obtain idx a where idx: "randint (d_idx d) 0 (int (length h)) = Inr idx"
    and c: "c = take (nat idx) h @ [a] @ drop (nat idx) h"
    by (auto simp: apply_move_def split: sum.splits)
  from randint_range [OF idx] have "nat idx \<le> length h" by auto
  then show ?thesis using c by simp
qed

lemma apply_move_Delete:
  assumes "apply_move Delete d h = Inr c"
  shows "length c + 1 = length h"
proof -
  from assms obtain idx where idx: "randint (d_idx d) 0 (int (length h) - 1) = Inr idx"
    and c: "c = take (nat idx) h @ drop (Suc (nat idx)) h"
    by (auto simp: apply_move_def split: sum.splits)
  from randint_range [OF idx] have "nat idx < length h" by auto
  then show ?thesis using c by simp
qed

lemma legal_moves_mem:
  "Change \<in> set (legal_moves h)"
  "Insert \<in> set (legal_moves h) \<longleftrightarrow> int (length h) < max_half"
  "Delete \<in> set (legal_moves h) \<longleftrightarrow> min_half < int (length h)"
  by (simp_all add: legal_moves_def)

lemma propose_cases:
  assumes "propose d h = Inr c"
  obtains mv where "mv \<in> set (legal_moves h)" and "apply_move mv d h = Inr c"
  using assms choice_mem by (fastforce simp: propose_def split: sum.splits)

lemma propose_bounds:
  assumes "within_bounds h" and "propose d h = Inr c"
  shows "within_bounds c"
proof -
  from assms(2) obtain mv where mv: "mv \<in> set (legal_moves h)" and c: "apply_move mv d h = Inr c"
    by (rule propose_cases)
  show ?thesis
  proof (cases mv)
    case Change
    then show ?thesis using apply_move_Change c assms(1) by (simp add: within_bounds_def)
  next
    case Insert
    then have "int (length h) < max_half" using mv legal_moves_mem(2) by simp
    moreover have "length c = length h + 1" using apply_move_Insert c Insert by simp
    ultimately show ?thesis using assms(1) by (simp add: within_bounds_def)
  next
    case Delete
    then have "min_half < int (length h)" using mv legal_moves_mem(3) by simp
    moreover have "length c + 1 = length h" using apply_move_Delete c Delete by simp
    ultimately show ?thesis using assms(1) by (simp add: within_bounds_def)
  qed
qed

lemma propose_changes:
  assumes "propose d h = Inr c"
  shows "c \<noteq> h"
proof -
  from assms obtain mv where c: "apply_move mv d h = Inr c"
    by (rule propose_cases)
  show ?thesis
    using c apply_move_Change apply_move_Insert apply_move_Delete
    by (cases mv) fastforce+
qed

lemma filter_allowed_nonempty: "filter (\<lambda>a. a \<noteq> x) allowed_angles \<noteq> []"
  by (simp add: allowed_angles_def)

lemma apply_move_returns:
  assumes "0 < length h"
  shows "\<exists>c. apply_move mv d h = Inr c"
proof -
  obtain i where i: "randint (d_idx d) 0 (int (length h) - 1) = Inr i"
    using randint_returns [of 0 "int (length h) - 1"] assms by auto
  obtain j where j: "randint (d_idx d) 0 (int (length h)) = Inr j"
    using randint_returns [of 0 "int (length h)"] by auto
  obtain a where a: "choice (d_angle d) (filter (\<lambda>a. a \<noteq> h ! nat i) allowed_angles) = Inr a"
    using choice_returns [OF filter_allowed_nonempty] by blast
  obtain b where b: "choice (d_angle d) allowed_angles = Inr b"
    using choice_returns [of allowed_angles] by (auto simp: allowed_angles_def)
  show ?thesis
    by (cases mv) (simp_all add: apply_move_def i j a b)
qed

lemma propose_returns:
  assumes "within_bounds h"
  shows "\<exists>c. propose d h = Inr c"
proof -
  have "0 < length h" using assms by (auto simp: within_bounds_def min_half_def min_full_plies_def)
  moreover obtain mv where "choice (d_move d) (legal_moves h) = Inr mv"
    using choice_returns [of "legal_moves h"] by (auto simp: legal_moves_def)
  ultimately show ?thesis using apply_move_returns by (simp add: propose_def)
qed

lemma objective_returns: "\<exists>v. objective h = Inr v"
  by (simp add: objective_def laminate_objective_def penalty_def symmetric_check_mirror Let_def)

lemma step_cases:
  assumes "step d cooling_rate s = Inr s'"
  obtains candidate_half candidate_obj where
    "propose d (current_half s) = Inr candidate_half"
    "objective candidate_half = Inr candidate_obj"
  using assms by (auto simp: step_def split: sum.splits)

lemma step_unfold:
  assumes "propose d (current_half s) = Inr candidate_half"
    and "objective candidate_half = Inr candidate_obj"
  shows "step d cooling_rate s =
     Inr (if candidate_obj - current_obj s < 0 \<or> accept_draw (d_u d) (candidate_obj - current_obj s) (T s)
          then \<lparr>current_half = candidate_half, current_obj = candidate_obj,
                best_half = (if candidate_obj < best_obj s then candidate_half else best_half s),
                best_obj = (if candidate_obj < best_obj s then candidate_obj else best_obj s),
                T = T s * cooling_rate\<rparr>
          else s\<lparr>T := T s * cooling_rate\<rparr>)"
  using assms by (simp add: step_def Let_def)

lemma step_returns:
  assumes "within_bounds (current_half s)"
  shows "\<exists>s'. step d cooling_rate s = Inr s'"
proof -
  obtain c where c: "propose d (current_half s) = Inr c"
    using propose_returns [OF assms] by blast
  obtain v where v: "objective c = Inr v"
    using objective_returns by blast
  show ?thesis using step_unfold [OF c v] by simp
qed

lemma step_bounds:
  assumes "within_bounds (current_half s)" and "step d cooling_rate s = Inr s'"
  shows "within_bounds (current_half s')"
proof -
  from assms(2) obtain c v where c: "propose d (current_half s) = Inr c"
    and v: "objective c = Inr v"
    by (rule step_cases)
  have "within_bounds c" using propose_bounds [OF assms(1) c] .
  then show ?thesis using step_unfold [OF c v, of cooling_rate] assms by (auto split: if_splits)
qed

lemma step_best:
  assumes "step d cooling_rate s = Inr s'"
  shows "best_obj s' \<le> best_obj s"
    and "best_obj s \<le> current_obj s \<Longrightarrow> best_obj s' = min (best_obj s) (current_obj s')"
    and "T s' = T s * cooling_rate"
proof -
  from assms obtain c v where c: "propose d (current_half s) = Inr c"
    and v: "objective c = Inr v"
    by (rule step_cases)
  note u = step_unfold [OF c v, of cooling_rate]
  show "best_obj s' \<le> best_obj s"
    using u assms by (auto split: if_splits)
  show "best_obj s' = min (best_obj s) (current_obj s')" if "best_obj s \<le> current_obj s"
    using u assms that by (auto split: if_splits)
  show "T s' = T s * cooling_rate"
    using u assms by (auto split: if_splits)
qed

subsection \<open>The example runs, evaluated\<close>

lemma compute_Qbar_0: "compute_Qbar 0 = [[Q11, Q12, 0], [Q12, Q22, 0], [0, 0, Q66]]"
  by (simp add: compute_Qbar_def radians_def Let_def)

lemma Q11_value: "Q11 = 89 * 10 ^ 9 * 2225 / 2207"
  by (simp add: Q11_def E1_def E2_def denom_def nu12_def nu21_def)

lemma upt_4: "[0..<4] = [0, 1, 2, 3]"
  by (simp add: upt_rec numeral_eq_Suc)

lemma upt_5: "[0..<5] = [0, 1, 2, 3, 4]"
  by (simp add: upt_rec numeral_eq_Suc)

lemma upt_6: "[0..<6] = [0, 1, 2, 3, 4, 5]"
  by (simp add: upt_rec numeral_eq_Suc)

lemma upt_7: "[0..<7] = [0, 1, 2, 3, 4, 5, 6]"
  by (simp add: upt_rec numeral_eq_Suc)

lemma D11_four_plies: "compute_D_matrix [0, 0, 0, 0] ! 0 ! 0 = 3168400 / 6621"
  by (simp add: compute_D_matrix_def Let_def linspace_def upt_4 upt_5 compute_Qbar_0 t_def
        zeros_def mat_add_def mat_div_def mat_scale_def numeral_3_eq_3 Q11_value)

lemma D11_six_plies: "compute_D_matrix [0, 0, 0, 0, 0, 0] ! 0 ! 0 = 3564450 / 2207"
  by (simp add: compute_D_matrix_def Let_def linspace_def upt_6 upt_7 compute_Qbar_0 t_def
        zeros_def mat_add_def mat_div_def mat_scale_def numeral_3_eq_3 Q11_value)

lemma penalty_zeros: "penalty [0, 0, 0, 0] = Inr 0" "penalty [0, 0, 0, 0, 0, 0] = Inr 0"
  by (simp_all add: penalty_def symmetric_check_def allclose_def isclose_def minPercent_def Let_def)

lemma objective_two: "objective [0, 0] = Inr (69989 / 3168400)"
  by (simp add: objective_def laminate_objective_def penalty_zeros
        laminate_deflection_metric_def D11_four_plies laminate_weight_def Let_def)

lemma objective_three: "objective [0, 0, 0] = Inr (218281 / 7128900)"
  by (simp add: objective_def laminate_objective_def penalty_zeros
        laminate_deflection_metric_def D11_six_plies laminate_weight_def Let_def)

lemma upt_2: "[0..<2] = [0, 1]"
  by (simp add: upt_rec numeral_eq_Suc)

lemma upt_3: "[0..<3] = [0, 1, 2]"
  by (simp add: upt_rec numeral_eq_Suc)

lemma init_a: "init_state rng_a T0 = Inr (state_a0 T0)"
  by (simp add: init_state_def rng_a_def randint_def min_half_def max_half_def state_a0_def
        min_full_plies_def max_full_plies_def choice_def allowed_angles_def upt_2 objective_two)

lemma init_b: "init_state rng_b T0 = Inr (state_b0 T0)"
  by (simp add: init_state_def rng_b_def randint_def min_half_def max_half_def state_b0_def
        min_full_plies_def max_full_plies_def choice_def allowed_angles_def upt_3 objective_three)

lemma propose_a: "propose draws_a [0, 0] = Inr [0, 0, 0]"
  by (simp add: propose_def legal_moves_def apply_move_def choice_def randint_def draws_a_def
      min_half_def max_half_def min_full_plies_def max_full_plies_def allowed_angles_def)

lemma propose_b: "propose draws_b [0, 0, 0] = Inr [0, 0]"
  by (simp add: propose_def legal_moves_def apply_move_def choice_def randint_def draws_b_def
      min_half_def max_half_def min_full_plies_def max_full_plies_def allowed_angles_def)

lemma step_a: "T0 \<noteq> 0 \<Longrightarrow> step draws_a cr (state_a0 T0) = Inr (state_a1 (T0 * cr))"
  by (simp add: step_def state_a0_def state_a1_def propose_a objective_three accept_draw_def
        Let_def draws_a_def [THEN arg_cong [of _ _ d_u]])

lemma step_b: "step draws_b cr (state_b0 T0) = Inr (state_b1 (T0 * cr))"
  by (simp add: step_def state_b0_def state_b1_def propose_b objective_two accept_draw_def Let_def)

lemma r_iter_examples: "r_iter rng_a k = draws_a" "r_iter rng_b k = draws_b"
  by (simp_all add: rng_a_def rng_b_def)

lemma search_a0: "search_state rng_a T0 cr 0 = Inr (state_a0 T0)"
  by (simp add: search_state_def init_a)

lemma search_a1: "T0 \<noteq> 0 \<Longrightarrow> search_state rng_a T0 cr 1 = Inr (state_a1 (T0 * cr))"
  by (simp add: search_state_def init_a step_a r_iter_examples)

lemma search_b0: "search_state rng_b T0 cr 0 = Inr (state_b0 T0)"
  by (simp add: search_state_def init_b)

lemma search_b1: "search_state rng_b T0 cr 1 = Inr (state_b1 (T0 * cr))"
  by (simp add: search_state_def init_b step_b r_iter_examples)

subsection \<open>Runs of the search\<close>

lemma sequence_map_returns:
  assumes "\<And>i. \<exists>y. g i = Inr y"
  shows "\<exists>ys. sequence (map g ks) = Inr ys \<and> length ys = length ks"
proof (induction ks)
  case Nil
  show ?case by simp
next
  case (Cons k ks)
  then obtain ys where "sequence (map g ks) = Inr ys" "length ys = length ks" by blast
  moreover obtain y where "g k = Inr y" using assms by blast
  ultimately show ?case by simp
qed

lemma sequence_length: "sequence xs = Inr ys \<Longrightarrow> length ys = length xs"
proof (induction xs arbitrary: ys rule: sequence.induct)
  case 1
  then show ?case by simp
next
  case (2 e xs)
  then show ?case by simp
next
  case (3 x xs)
  then show ?case by (auto split: sum.splits)
qed

lemma bounds_ordered: "min_half \<le> max_half" "0 < min_half"
  by (simp_all add: min_half_def max_half_def min_full_plies_def max_full_plies_def)

lemma init_state_props:
  assumes "init_state r initial_temp = Inr s"
  shows "within_bounds (current_half s)" and "best_obj s = current_obj s"
    and "best_half s = current_half s" and "T s = initial_temp"
proof -
  from assms obtain n h v where n: "randint (r_length r) min_half max_half = Inr n"
    and h: "sequence (map (\<lambda>i. choice (r_init r i) allowed_angles) [0..<nat n]) = Inr h"
    and s: "s = \<lparr>current_half = h, current_obj = v, best_half = h, best_obj = v,
                  T = initial_temp\<rparr>"
    by (auto simp: init_state_def split: sum.splits)
  have "length h = nat n" using sequence_length [OF h] by simp
  moreover have "min_half \<le> n \<and> n \<le> max_half" using randint_range [OF n] .
  ultimately show "within_bounds (current_half s)"
    using s bounds_ordered(2) by (simp add: within_bounds_def)
  show "best_obj s = current_obj s" "best_half s = current_half s" "T s = initial_temp"
    using s by simp_all
qed

lemma init_state_returns: "\<exists>s. init_state r initial_temp = Inr s"
proof -
  obtain n where n: "randint (r_length r) min_half max_half = Inr n"
    using randint_returns [OF bounds_ordered(1)] by blast
  have "\<exists>y. choice (r_init r i) allowed_angles = Inr y" for i
    by (rule choice_returns) (simp add: allowed_angles_def)
  then obtain h where h: "sequence (map (\<lambda>i. choice (r_init r i) allowed_angles) [0..<nat n]) = Inr h"
    using sequence_map_returns [of "\<lambda>i. choice (r_init r i) allowed_angles" "[0..<nat n]"] by blast
  obtain v where v: "objective h = Inr v" using objective_returns by blast
  show ?thesis by (simp add: init_state_def n h v)
qed

lemma iterate_Suc_cases:
  assumes "iterate r cooling_rate (Suc n) s = Inr s''"
  obtains s' where "iterate r cooling_rate n s = Inr s'"
    and "step (r_iter r n) cooling_rate s' = Inr s''"
  using assms by (auto split: sum.splits)

lemma iterate_bounds:
  "within_bounds (current_half s) \<Longrightarrow> iterate r cooling_rate n s = Inr s'
   \<Longrightarrow> within_bounds (current_half s')"
proof (induction n arbitrary: s')
  case 0
  then show ?case by simp
next
  case (Suc n)
  from Suc.prems(2) obtain s1 where s1: "iterate r cooling_rate n s = Inr s1"
    and st: "step (r_iter r n) cooling_rate s1 = Inr s'"
    by (rule iterate_Suc_cases)
  have "within_bounds (current_half s1)" using Suc.IH [OF Suc.prems(1) s1] .
  then show ?case using step_bounds st by blast
qed

lemma iterate_returns:
  "within_bounds (current_half s) \<Longrightarrow> \<exists>s'. iterate r cooling_rate n s = Inr s'"
proof (induction n)
  case 0
  show ?case by simp
next
  case (Suc n)
  then obtain s1 where s1: "iterate r cooling_rate n s = Inr s1" by blast
  have "within_bounds (current_half s1)" using iterate_bounds [OF Suc.prems s1] .
  then obtain s2 where "step (r_iter r n) cooling_rate s1 = Inr s2"
    using step_returns by blast
  then show ?case using s1 by simp
qed

lemma search_state_returns: "\<exists>s. search_state r initial_temp cooling_rate n = Inr s"
proof -
  obtain s0 where s0: "init_state r initial_temp = Inr s0"
    using init_state_returns by blast
  have "within_bounds (current_half s0)" using init_state_props(1) [OF s0] .
  then obtain s where "iterate r cooling_rate n s0 = Inr s"
    using iterate_returns by blast
  then show ?thesis using s0 by (simp add: search_state_def)
qed

lemma search_state_0:
  "search_state r initial_temp cooling_rate 0 = init_state r initial_temp"
  by (simp add: search_state_def split: sum.splits)

lemma search_state_Suc_cases:
  assumes "search_state r initial_temp cooling_rate (Suc n) = Inr s''"
  obtains s' where "search_state r initial_temp cooling_rate n = Inr s'"
    and "step (r_iter r n) cooling_rate s' = Inr s''"
  using assms by (auto simp: search_state_def split: sum.splits)

lemma search_state_bounds:
  assumes "search_state r initial_temp cooling_rate n = Inr s"
  shows "within_bounds (current_half s)"
proof -
  from assms obtain s0 where s0: "init_state r initial_temp = Inr s0"
    and it: "iterate r cooling_rate n s0 = Inr s"
    by (auto simp: search_state_def split: sum.splits)
  show ?thesis using iterate_bounds [OF init_state_props(1) [OF s0] it] .
qed

lemma search_state_best_le_current:
  "search_state r initial_temp cooling_rate n = Inr s \<Longrightarrow> best_obj s \<le> current_obj s"
proof (induction n arbitrary: s)
  case 0
  then show ?case using init_state_props(2) by (simp add: search_state_0)
next
  case (Suc n)
  from Suc.prems obtain s1 where s1: "search_state r initial_temp cooling_rate n = Inr s1"
    and st: "step (r_iter r n) cooling_rate s1 = Inr s"
    by (rule search_state_Suc_cases)
  have "best_obj s1 \<le> current_obj s1" using Suc.IH [OF s1] .
  then have "best_obj s = min (best_obj s1) (current_obj s)" using step_best(2) [OF st] by simp
  then show ?case by simp
qed

lemma objectives_reached_0:
  assumes "search_state r initial_temp cooling_rate 0 = Inr s"
  shows "objectives_reached r initial_temp cooling_rate 0 = {current_obj s}"
  using assms by (auto simp: objectives_reached_def)

lemma objectives_reached_Suc:
  assumes "search_state r initial_temp cooling_rate (Suc n) = Inr s"
  shows "objectives_reached r initial_temp cooling_rate (Suc n)
         = insert (current_obj s) (objectives_reached r initial_temp cooling_rate n)"
proof -
  have "k \<le> Suc n \<longleftrightarrow> k = Suc n \<or> k \<le> n" for k by auto
  then show ?thesis using assms
    by (auto simp: objectives_reached_def)
qed

lemma objectives_reached_finite:
  "finite (objectives_reached r initial_temp cooling_rate n)"
proof -
  have "objectives_reached r initial_temp cooling_rate n
        \<subseteq> (\<lambda>k. case search_state r initial_temp cooling_rate k of
                   Inr s \<Rightarrow> current_obj s | Inl e \<Rightarrow> 0) ` {..n}"
    by (force simp: objectives_reached_def image_iff)
  then show ?thesis by (rule finite_subset) simp
qed

lemma objectives_reached_nonempty:
  "objectives_reached r initial_temp cooling_rate n \<noteq> {}"
proof -
  obtain s where "search_state r initial_temp cooling_rate 0 = Inr s"
    using search_state_returns by blast
  then have "current_obj s \<in> objectives_reached r initial_temp cooling_rate n"
    by (auto simp: objectives_reached_def)
  then show ?thesis by blast
qed

lemma search_state_best_is_Min:
  "search_state r initial_temp cooling_rate n = Inr s
   \<Longrightarrow> best_obj s = Min (objectives_reached r initial_temp cooling_rate n)"
proof (induction n arbitrary: s)
  case 0
  then have "best_obj s = current_obj s" using init_state_props(2) by (simp add: search_state_0)
  then show ?case using objectives_reached_0 [OF 0] by simp
next
  case (Suc n)
  from Suc.prems obtain s1 where s1: "search_state r initial_temp cooling_rate n = Inr s1"
    and st: "step (r_iter r n) cooling_rate s1 = Inr s"
    by (rule search_state_Suc_cases)
  have "best_obj s1 \<le> current_obj s1" using search_state_best_le_current [OF s1] .
  then have "best_obj s = min (best_obj s1) (current_obj s)" using step_best(2) [OF st] by simp
  also have "\<dots> = min (current_obj s) (Min (objectives_reached r initial_temp cooling_rate n))"
    using Suc.IH [OF s1] by (simp add: min.commute)
  also have "\<dots> = Min (insert (current_obj s) (objectives_reached r initial_temp cooling_rate n))"
    using objectives_reached_finite objectives_reached_nonempty by (simp add: Min_insert)
  finally show ?case using objectives_reached_Suc [OF Suc.prems] by simp
qed

subsection \<open>The annealing engine\<close>

lemma search_state_T:
  "search_state r initial_temp cooling_rate n = Inr s \<Longrightarrow> T s = initial_temp * cooling_rate ^ n"
proof (induction n arbitrary: s)
  case 0
  then show ?case using init_state_props(4) by (simp add: search_state_0)
next
  case (Suc n)
  from Suc.prems obtain s1 where s1: "search_state r initial_temp cooling_rate n = Inr s1"
    and st: "step (r_iter r n) cooling_rate s1 = Inr s"
    by (rule search_state_Suc_cases)
  show ?case using Suc.IH [OF s1] step_best(3) [OF st] by simp
qed

text \<open>The temperature of a run with a non-zero initial temperature and cooling
  rate is never zero.\<close>
lemma search_state_T_nonzero:
  assumes "search_state r initial_temp cooling_rate n = Inr s"
    and "initial_temp \<noteq> 0" and "cooling_rate \<noteq> 0"
  shows "T s \<noteq> 0"
  using search_state_T [OF assms(1)] assms(2,3) by simp

text \<open>
  C2: in an iteration that starts with a temperature other than zero, with
  \<open>delta = candidate_obj - current_obj\<close> and \<open>r = d_u d\<close> the uniform draw, the
  candidate and its objective become the current ones when \<open>delta < 0\<close> or
  \<open>r < exp (- delta / T)\<close>, and otherwise the current half-sequence, its objective
  and the best-so-far are unchanged. The candidate always differs from the current
  half-sequence, so it becomes current exactly in the first case.
\<close>
theorem metropolis_acceptance:
  assumes "step d cooling_rate s = Inr s'" and "T s \<noteq> 0"
  shows "\<exists>candidate_half candidate_obj.
           propose d (current_half s) = Inr candidate_half
         \<and> objective candidate_half = Inr candidate_obj
         \<and> candidate_half \<noteq> current_half s
         \<and> (if candidate_obj - current_obj s < 0
                \<or> d_u d < exp (- (candidate_obj - current_obj s) / T s)
             then current_half s' = candidate_half \<and> current_obj s' = candidate_obj
             else current_half s' = current_half s \<and> current_obj s' = current_obj s
                \<and> best_half s' = best_half s \<and> best_obj s' = best_obj s)"
proof -
  from assms(1) obtain c v where c: "propose d (current_half s) = Inr c"
    and v: "objective c = Inr v"
    by (rule step_cases)
  have "c \<noteq> current_half s" using propose_changes [OF c] .
  moreover have "if v - current_obj s < 0 \<or> d_u d < exp (- (v - current_obj s) / T s)
             then current_half s' = c \<and> current_obj s' = v
             else current_half s' = current_half s \<and> current_obj s' = current_obj s
                \<and> best_half s' = best_half s \<and> best_obj s' = best_obj s"
    using step_unfold [OF c v, of cooling_rate] assms
    by (auto simp: accept_draw_def split: if_splits)
  ultimately show ?thesis using c v by blast
qed

lemma step_c: "step draws_c cr (state_a0 1) = Inr ((state_a0 1)\<lparr>T := cr\<rparr>)"
proof -
  define dl :: real where "dl = 218281 / 7128900 - 69989 / 3168400"
  have pos: "0 \<le> dl" by (simp add: dl_def)
  have "exp (- dl) = 1 / exp dl" by (simp add: exp_minus field_simps)
  also have "\<dots> \<le> 1 / (1 + dl)"
    using exp_ge_add_one_self [of dl] pos by (intro divide_left_mono) auto
  also have "\<dots> \<le> 999 / 1000" by (simp add: dl_def)
  finally have rej: "\<not> 999 / 1000 < exp (- dl)" by simp
  have p: "propose draws_c (current_half (state_a0 1)) = Inr [0, 0, 0]"
    by (simp add: propose_def legal_moves_def apply_move_def choice_def randint_def draws_c_def
      min_half_def max_half_def min_full_plies_def max_full_plies_def allowed_angles_def
      state_a0_def)
  have du: "d_u draws_c = 999 / 1000" by (simp add: draws_c_def)
  have "\<not> accept_draw (d_u draws_c) (218281 / 7128900 - current_obj (state_a0 1)) (T (state_a0 1))"
    using rej by (simp add: accept_draw_def du state_a0_def dl_def)
  moreover have "\<not> 218281 / 7128900 - current_obj (state_a0 1) < 0"
    by (simp add: state_a0_def)
  ultimately show ?thesis
    using step_unfold [OF p objective_three, of cr] by (simp add: state_a0_def)
qed

text \<open>
  C2 at run \<open>a\<close>: the candidate \<open>[0, 0, 0]\<close> is worse than \<open>[0, 0]\<close> and is accepted
  on the draw \<open>0\<close>, and rejected on the draw \<open>999 / 1000\<close>.
\<close>
theorem metropolis_acceptance_witness:
  "step draws_a (999 / 1000) (state_a0 1) = Inr (state_a1 (999 / 1000))
   \<and> T (state_a0 1) = 1
   \<and> propose draws_a (current_half (state_a0 1)) = Inr [0, 0, 0]
   \<and> objective [0, 0, 0] = Inr (218281 / 7128900)
   \<and> d_u draws_a < exp (- (218281 / 7128900 - current_obj (state_a0 1)) / T (state_a0 1))
   \<and> current_half (state_a1 (999 / 1000)) = [0, 0, 0]
   \<and> current_obj (state_a1 (999 / 1000)) = 218281 / 7128900
   \<and> step draws_c (999 / 1000) (state_a0 1) = Inr ((state_a0 1)\<lparr>T := 999 / 1000\<rparr>)
   \<and> propose draws_c (current_half (state_a0 1)) = Inr [0, 0, 0]
   \<and> \<not> d_u draws_c < exp (- (218281 / 7128900 - current_obj (state_a0 1)) / T (state_a0 1))
   \<and> current_half ((state_a0 1)\<lparr>T := 999 / 1000\<rparr>) = [0, 0]
   \<and> current_obj ((state_a0 1)\<lparr>T := 999 / 1000\<rparr>) = current_obj (state_a0 1)"
proof -
  have st: "step draws_a (999 / 1000) (state_a0 1) = Inr (state_a1 (1 * (999 / 1000)))"
    by (rule step_a) simp
  have T1: "T (state_a0 1) \<noteq> 0" by (simp add: state_a0_def)
  have p: "propose draws_a (current_half (state_a0 1)) = Inr [0, 0, 0]"
    using propose_a by (simp add: state_a0_def)
  have acc: "d_u draws_a < exp (- (218281 / 7128900 - current_obj (state_a0 1)) / T (state_a0 1))
    \<and> current_half (state_a1 (999 / 1000)) = [0, 0, 0]
    \<and> current_obj (state_a1 (999 / 1000)) = 218281 / 7128900"
    using metropolis_acceptance [OF st T1] st p objective_three
    by (auto simp: state_a0_def state_a1_def draws_a_def)
  have pc: "propose draws_c (current_half (state_a0 1)) = Inr [0, 0, 0]"
    by (simp add: propose_def legal_moves_def apply_move_def choice_def randint_def draws_c_def
      min_half_def max_half_def min_full_plies_def max_full_plies_def allowed_angles_def
      state_a0_def)
  have worse: "\<not> 218281 / 7128900 - current_obj (state_a0 1) < 0"
    by (simp add: state_a0_def)
  have rej: "\<not> d_u draws_c < exp (- (218281 / 7128900 - current_obj (state_a0 1)) / T (state_a0 1))"
  proof -
    obtain c v where c: "propose draws_c (current_half (state_a0 1)) = Inr c"
      and v: "objective c = Inr v"
      and r: "if v - current_obj (state_a0 1) < 0
                 \<or> d_u draws_c < exp (- (v - current_obj (state_a0 1)) / T (state_a0 1))
              then current_half ((state_a0 1)\<lparr>T := 999 / 1000\<rparr>) = c
                 \<and> current_obj ((state_a0 1)\<lparr>T := 999 / 1000\<rparr>) = v
              else True"
      using metropolis_acceptance [OF step_c [of "999 / 1000"] T1]
      by (auto split: if_splits)
    have ceq: "c = [0, 0, 0]" using c pc by simp
    then have veq: "v = 218281 / 7128900" using v objective_three by simp
    have ne: "current_half ((state_a0 1)\<lparr>T := 999 / 1000\<rparr>) \<noteq> [0, 0, 0]"
      by (simp add: state_a0_def)
    show ?thesis
    proof
      assume "d_u draws_c
              < exp (- (218281 / 7128900 - current_obj (state_a0 1)) / T (state_a0 1))"
      then have "current_half ((state_a0 1)\<lparr>T := 999 / 1000\<rparr>) = c"
        using r unfolding veq by (simp only: if_True simp_thms)
      then show False using ne ceq by simp
    qed
  qed
  show ?thesis
    using st T1 p objective_three acc step_c [of "999 / 1000"] pc rej
    by (simp add: state_a0_def)
qed

text \<open>
  C5: the best-so-far objective at the end of iteration \<open>k + 1\<close> is at most the one
  at the end of iteration \<open>k\<close>. The run reaches both states, whatever the draws
  (\<open>search_state_returns\<close>).
\<close>
theorem best_obj_nonincreasing:
  assumes "search_state r initial_temp cooling_rate k = Inr s"
    and "search_state r initial_temp cooling_rate (Suc k) = Inr s'"
  shows "best_obj s' \<le> best_obj s"
proof -
  from assms(2) obtain s1 where s1: "search_state r initial_temp cooling_rate k = Inr s1"
    and st: "step (r_iter r k) cooling_rate s1 = Inr s'"
    by (rule search_state_Suc_cases)
  have "s1 = s" using s1 assms(1) by simp
  then show ?thesis using step_best(1) [OF st] by simp
qed

text \<open>
  C5 at run \<open>b\<close>, where the first iteration improves the best objective.
\<close>
theorem best_obj_nonincreasing_witness:
  "search_state rng_b 1 (999 / 1000) 0 = Inr (state_b0 1)
   \<and> search_state rng_b 1 (999 / 1000) (Suc 0) = Inr (state_b1 (999 / 1000))
   \<and> best_obj (state_b1 (999 / 1000)) \<le> best_obj (state_b0 1)
   \<and> best_obj (state_b1 (999 / 1000)) = 69989 / 3168400
   \<and> best_obj (state_b0 1) = 218281 / 7128900"
proof -
  have a: "search_state rng_b 1 (999 / 1000) 0 = Inr (state_b0 1)"
    by (rule search_b0)
  have b: "search_state rng_b 1 (999 / 1000) (Suc 0) = Inr (state_b1 (999 / 1000))"
    using search_b1 [of 1 "999 / 1000"] by simp
  show ?thesis
    using best_obj_nonincreasing [OF a b] a b by (simp add: state_b0_def state_b1_def)
qed

text \<open>
  C6: after any number of iterations the length of the current half-sequence is in
  \<open>[min_half, max_half]\<close>; \<open>Change\<close> is always a legal move and keeps the length,
  \<open>Insert\<close> is legal exactly when the length is below \<open>max_half\<close>, \<open>Delete\<close> exactly
  when it is above \<open>min_half\<close>, and every candidate proposed from the current
  half-sequence is within the bounds.
\<close>
theorem half_length_within_bounds:
  assumes "search_state r initial_temp cooling_rate n = Inr s"
  shows "min_half \<le> int (length (current_half s))
       \<and> int (length (current_half s)) \<le> max_half
       \<and> Change \<in> set (legal_moves (current_half s))
       \<and> (Insert \<in> set (legal_moves (current_half s))
            \<longleftrightarrow> int (length (current_half s)) < max_half)
       \<and> (Delete \<in> set (legal_moves (current_half s))
            \<longleftrightarrow> min_half < int (length (current_half s)))
       \<and> (\<forall>d c. apply_move Change d (current_half s) = Inr c
              \<longrightarrow> length c = length (current_half s))
       \<and> (\<forall>d c. propose d (current_half s) = Inr c
              \<longrightarrow> min_half \<le> int (length c) \<and> int (length c) \<le> max_half)"
proof -
  have wb: "within_bounds (current_half s)" using search_state_bounds [OF assms] .
  have "\<forall>d c. propose d (current_half s) = Inr c \<longrightarrow> within_bounds c"
    using propose_bounds [OF wb] by blast
  moreover have "\<forall>d c. apply_move Change d (current_half s) = Inr c
              \<longrightarrow> length c = length (current_half s)"
    using apply_move_Change by blast
  ultimately show ?thesis
    using wb legal_moves_mem [of "current_half s"] by (simp add: within_bounds_def)
qed

text \<open>
  C6 at the state run \<open>a\<close> reaches after one iteration.
\<close>
theorem half_length_within_bounds_witness:
  "search_state rng_a 1 (999 / 1000) 1 = Inr (state_a1 (999 / 1000))
   \<and> current_half (state_a1 (999 / 1000)) = [0, 0, 0]
   \<and> min_half = 2 \<and> max_half = 20
   \<and> min_half \<le> int (length (current_half (state_a1 (999 / 1000))))
   \<and> int (length (current_half (state_a1 (999 / 1000)))) \<le> max_half
   \<and> legal_moves [0, 0, 0] = [Change, Insert, Delete]
   \<and> apply_move Change draws_a [0, 0, 0] = Inr [45, 0, 0]
   \<and> propose draws_b [0, 0, 0] = Inr [0, 0]"
proof -
  have a: "search_state rng_a 1 (999 / 1000) 1 = Inr (state_a1 (999 / 1000))"
    using search_a1 [of 1 "999 / 1000"] by simp
  have m: "min_half = 2" "max_half = 20"
    by (simp_all add: min_half_def max_half_def min_full_plies_def max_full_plies_def)
  have l: "legal_moves [0, 0, 0] = [Change, Insert, Delete]"
    by (simp add: legal_moves_def m)
  have c: "apply_move Change draws_a [0, 0, 0] = Inr [45, 0, 0]"
    by (simp add: apply_move_def randint_def choice_def draws_a_def allowed_angles_def)
  show ?thesis
    using half_length_within_bounds [OF a] a m l c propose_b
    by (simp add: state_a1_def)
qed

text \<open>
  C10: after initialisation and after every iteration the best-so-far objective is
  at most the current objective, it is the minimum of the current objectives
  reached so far (the initial one and those of the accepted candidates), and it is
  the objective that \<open>simulated_annealing\<close> returns.
\<close>
theorem best_obj_le_current_obj:
  assumes "search_state r initial_temp cooling_rate n = Inr s"
  shows "best_obj s \<le> current_obj s
       \<and> best_obj s = Min (objectives_reached r initial_temp cooling_rate n)
       \<and> simulated_annealing r n initial_temp cooling_rate
           = Inr (best_half s @ rev (best_half s), best_obj s)"
  using search_state_best_le_current [OF assms] search_state_best_is_Min [OF assms] assms
  by (simp add: simulated_annealing_def)

text \<open>
  C10 at run \<open>a\<close>, where the accepted candidate is worse than the initial state.
\<close>
theorem best_obj_le_current_obj_witness:
  "search_state rng_a 1 (999 / 1000) 1 = Inr (state_a1 (999 / 1000))
   \<and> best_obj (state_a1 (999 / 1000)) = 69989 / 3168400
   \<and> current_obj (state_a1 (999 / 1000)) = 218281 / 7128900
   \<and> best_obj (state_a1 (999 / 1000)) \<le> current_obj (state_a1 (999 / 1000))
   \<and> objectives_reached rng_a 1 (999 / 1000) 1 = {218281 / 7128900, 69989 / 3168400}
   \<and> best_obj (state_a1 (999 / 1000)) = Min (objectives_reached rng_a 1 (999 / 1000) 1)
   \<and> simulated_annealing rng_a 1 1 (999 / 1000) = Inr ([0, 0, 0, 0], 69989 / 3168400)"
proof -
  have a0: "search_state rng_a 1 (999 / 1000) 0 = Inr (state_a0 1)"
    by (rule search_a0)
  have a: "search_state rng_a 1 (999 / 1000) (Suc 0) = Inr (state_a1 (999 / 1000))"
    using search_a1 [of 1 "999 / 1000"] by simp
  have "objectives_reached rng_a 1 (999 / 1000) (Suc 0)
        = {current_obj (state_a1 (999 / 1000)), current_obj (state_a0 1)}"
    using objectives_reached_Suc [OF a] objectives_reached_0 [OF a0] by simp
  then have o: "objectives_reached rng_a 1 (999 / 1000) 1 = {218281 / 7128900, 69989 / 3168400}"
    by (simp add: state_a0_def state_a1_def)
  have a': "search_state rng_a 1 (999 / 1000) 1 = Inr (state_a1 (999 / 1000))"
    using a by simp
  show ?thesis
    using best_obj_le_current_obj [OF a'] a' o by (simp add: state_a1_def)
qed

text \<open>
  C8, as amended: \<open>simulated_annealing\<close> checks no configuration value. For every
  number of iterations, initial temperature and cooling rate, inside \<open>(0, 1)\<close> or
  not, the run raises nothing, goes through all its iterations (the temperature ends
  at \<open>initial_temp * cooling_rate ^ n_iterations\<close>) and returns a result. The other
  configuration values are module constants, and the ones the program fixes are
  valid: \<open>min_full_plies \<le> max_full_plies\<close>, \<open>allowed_angles\<close> is not empty, the
  material constants and \<open>denom\<close> are positive.
\<close>
theorem no_configuration_check:
  "(\<exists>res. simulated_annealing r n_iterations initial_temp cooling_rate = Inr res)
   \<and> (\<exists>s. search_state r initial_temp cooling_rate n_iterations = Inr s
          \<and> T s = initial_temp * cooling_rate ^ n_iterations)
   \<and> min_full_plies \<le> max_full_plies \<and> allowed_angles \<noteq> []
   \<and> 0 < E1 \<and> 0 < E2 \<and> 0 < G12 \<and> 0 < nu12 \<and> 0 < denom"
proof -
  obtain s where s: "search_state r initial_temp cooling_rate n_iterations = Inr s"
    using search_state_returns by blast
  have "T s = initial_temp * cooling_rate ^ n_iterations" using search_state_T [OF s] .
  moreover have "\<exists>res. simulated_annealing r n_iterations initial_temp cooling_rate = Inr res"
    using s by (simp add: simulated_annealing_def)
  moreover have "min_full_plies \<le> max_full_plies \<and> allowed_angles \<noteq> []
     \<and> 0 < E1 \<and> 0 < E2 \<and> 0 < G12 \<and> 0 < nu12 \<and> 0 < denom"
    by (simp add: min_full_plies_def max_full_plies_def allowed_angles_def E1_def E2_def
          G12_def nu12_def denom_def nu21_def)
  ultimately show ?thesis using s by blast
qed

text \<open>
  C8 as stated fails: with the cooling rate \<open>2\<close>, outside \<open>(0, 1)\<close>, run \<open>a\<close> goes
  through its iteration (the temperature is doubled) and returns a result.
\<close>
theorem cooling_rate_unchecked_counterexample:
  "\<not> (0 < (2::real) \<and> (2::real) < 1)
   \<and> search_state rng_a 1 2 1 = Inr (state_a1 2)
   \<and> T (state_a1 2) = 2
   \<and> simulated_annealing rng_a 1 1 2 = Inr ([0, 0, 0, 0], 69989 / 3168400)"
proof -
  have a: "search_state rng_a 1 2 1 = Inr (state_a1 2)"
    using search_a1 [of 1 2] by simp
  then show ?thesis by (simp add: simulated_annealing_def state_a1_def)
qed

text \<open>
  C7 on both branches: the empty laminate has \<open>D11 = 0\<close> and gets the sentinel; four
  plies at 0 degrees have a positive \<open>D11\<close>.
\<close>
theorem deflection_metric_cases_witness:
  "laminate_deflection_metric [] = 10 ^ 12
   \<and> compute_D_matrix [0, 0, 0, 0] ! 0 ! 0 = 3168400 / 6621
   \<and> laminate_deflection_metric [0, 0, 0, 0] = 6621 / 3168400"
proof -
  have "compute_D_matrix [] ! 0 ! 0 = 0"
    by (simp add: compute_D_matrix_def zeros_def numeral_3_eq_3)
  then show ?thesis
    using deflection_metric_cases [of "[]"] deflection_metric_cases [of "[0, 0, 0, 0]"]
    by (simp add: D11_four_plies)
qed

end
